theory Spec2Isabelle
  imports Main "HOL-Library.Word"
begin

section \<open>Python values and errors\<close>

text \<open>
  The exceptions that the modelled code can raise. None of the modelled functions has a
  \<^verbatim>\<open>try\<close> block, so an exception raised by a callee leaves the caller at once.
\<close>

datatype py_error = IndexError | TypeError | ConnectionError | UnidentifiedImageError | OSError

type_synonym byte = "8 word"

text \<open>
  Python list indexing \<^verbatim>\<open>xs[i]\<close>: a negative index counts from the end; the result is
  the position read, or nothing when the index is out of range (Python raises IndexError).
\<close>

definition py_index :: "'a list \<Rightarrow> int \<Rightarrow> nat option" where
  "py_index xs i =
     (if 0 \<le> i \<and> i < int (length xs) then Some (nat i)
      else if i < 0 \<and> - int (length xs) \<le> i then Some (nat (int (length xs) + i))
      else None)"

section \<open>Selection in the post list (src/main.py, class PostView)\<close>

text \<open>
  \<^verbatim>\<open>PostView\<close> keeps the attribute \<^verbatim>\<open>idx\<close>; its \<^verbatim>\<open>Post\<close> children are the result of
  \<^verbatim>\<open>self.query('Post')\<close>. Of each child only the CSS class \<^verbatim>\<open>selected\<close> is read or
  written, so a child is modelled by the flag telling whether it carries that class.
\<close>

record post_view =
  idx :: int
  selected :: "bool list"

text \<open>
  \<^verbatim>\<open>
  def _move_selection(self, direction):
      posts = self.query('Post')
      if not posts:
          return
      posts[self.idx].remove_class('selected')
      self.idx = (self.idx + direction) % len(posts)
      posts[self.idx].add_class('selected')
  \<close>
  Python's \<^verbatim>\<open>%\<close> with a positive right operand is the floored remainder, which is
  \<open>mod\<close> on \<open>int\<close>.
\<close>

definition move_selection :: "int \<Rightarrow> post_view \<Rightarrow> py_error + post_view" where
  "move_selection direction pv =
     (let posts = selected pv in
      if posts = [] then Inr pv
      else
        (case py_index posts (idx pv) of
           None \<Rightarrow> Inl IndexError
         | Some i \<Rightarrow>
             (let posts1 = posts[i := False];
                  idx' = (idx pv + direction) mod int (length posts1)
              in (case py_index posts1 idx' of
                    None \<Rightarrow> Inl IndexError
                  | Some j \<Rightarrow> Inr (pv\<lparr>idx := idx', selected := posts1[j := True]\<rparr>)))))"

definition action_go_up :: "post_view \<Rightarrow> py_error + post_view" where
  "action_go_up pv = move_selection (- 1) pv"

definition action_go_down :: "post_view \<Rightarrow> py_error + post_view" where
  "action_go_down pv = move_selection 1 pv"

text \<open>The same action run \<open>k\<close> times in a row; an exception ends the sequence.\<close>

primrec repeat_action ::
  "nat \<Rightarrow> (post_view \<Rightarrow> py_error + post_view) \<Rightarrow> post_view \<Rightarrow> py_error + post_view" where
  "repeat_action 0 act pv = Inr pv"
| "repeat_action (Suc k) act pv =
     (case act pv of
        Inl e \<Rightarrow> Inl e
      | Inr pv' \<Rightarrow> repeat_action k act pv')"

section \<open>Image transport (src/src/lui/_main.py, class KittyImage)\<close>

subsection \<open>Base64, as \<^verbatim>\<open>base64.standard_b64encode\<close> computes it\<close>

text \<open>
  \<^verbatim>\<open>standard_b64encode\<close> belongs to Python's standard library. It is modelled after
  RFC 4648: three input bytes form a 24-bit group that is written as four characters of
  the alphabet, six bits each; a last group of one or two bytes is padded with \<^verbatim>\<open>=\<close>.
  The result is a byte string of ASCII characters.
\<close>

definition b64_alphabet :: string where
  "b64_alphabet = ''ABCDEFGHIJKLMNOPQRSTUVWXYZabcdefghijklmnopqrstuvwxyz0123456789+/''"

definition b64_char :: "nat \<Rightarrow> char" where
  "b64_char i = b64_alphabet ! i"

fun standard_b64encode :: "byte list \<Rightarrow> string" where
  "standard_b64encode [] = []"
| "standard_b64encode [a] =
     (let n = unat a * 65536
      in [b64_char (n div 262144), b64_char (n div 4096 mod 64), CHR ''='', CHR ''=''])"
| "standard_b64encode [a, b] =
     (let n = unat a * 65536 + unat b * 256
      in [b64_char (n div 262144), b64_char (n div 4096 mod 64),
          b64_char (n div 64 mod 64), CHR ''=''])"
| "standard_b64encode (a # b # c # rest) =
     (let n = unat a * 65536 + unat b * 256 + unat c
      in [b64_char (n div 262144), b64_char (n div 4096 mod 64),
          b64_char (n div 64 mod 64), b64_char (n mod 64)] @ standard_b64encode rest)"

text \<open>
  The decoder that a reader of the stream applies. It is strict: text whose length is not
  a multiple of four, or that holds a character outside the alphabet, or padding anywhere
  but at the end, is rejected.
\<close>

primrec find_index_of :: "'a \<Rightarrow> 'a list \<Rightarrow> nat option" where
  "find_index_of c [] = None"
| "find_index_of c (x # xs) =
     (if x = c then Some 0 else map_option Suc (find_index_of c xs))"

definition b64_index :: "char \<Rightarrow> nat option" where
  "b64_index c = find_index_of c b64_alphabet"

definition join_sextets :: "nat list \<Rightarrow> nat" where
  "join_sextets = foldl (\<lambda>acc i. acc * 64 + i) 0"

fun standard_b64decode :: "string \<Rightarrow> byte list option" where
  "standard_b64decode [] = Some []"
| "standard_b64decode (c0 # c1 # c2 # c3 # rest) =
     (case (b64_index c0, b64_index c1) of
        (Some i0, Some i1) \<Rightarrow>
          (if rest = [] \<and> c3 = CHR ''='' then
             (if c2 = CHR ''='' then Some [of_nat (join_sextets [i0, i1] div 16)]
              else (case b64_index c2 of
                      Some i2 \<Rightarrow>
                        (let n = join_sextets [i0, i1, i2]
                         in Some [of_nat (n div 1024), of_nat (n div 4 mod 256)])
                    | None \<Rightarrow> None))
           else (case (b64_index c2, b64_index c3) of
                   (Some i2, Some i3) \<Rightarrow>
                     (let n = join_sextets [i0, i1, i2, i3]
                      in map_option
                           (\<lambda>bs. of_nat (n div 65536) # of_nat (n div 256 mod 256)
                                   # of_nat (n mod 256) # bs)
                           (standard_b64decode rest))
                 | _ \<Rightarrow> None))
      | _ \<Rightarrow> None)"
| "standard_b64decode _ = None"

subsection \<open>Graphics commands\<close>

text \<open>
  The keyword arguments of a graphics command are an ordered dictionary from names to
  strings or integers; \<^verbatim>\<open>f"{k}={v}"\<close> writes an integer in decimal.
\<close>

datatype pyval = PStr string | PInt int

type_synonym kwargs = "(string \<times> pyval) list"

fun nat_digits :: "nat \<Rightarrow> string" where
  "nat_digits n =
     (if n < 10 then [''0123456789'' ! n]
      else nat_digits (n div 10) @ [''0123456789'' ! (n mod 10)])"

declare nat_digits.simps [simp del]

fun py_str :: "pyval \<Rightarrow> string" where
  "py_str (PStr s) = s"
| "py_str (PInt i) = (if i < 0 then CHR ''-'' # nat_digits (nat (- i)) else nat_digits (nat i))"

fun join_str :: "string \<Rightarrow> string list \<Rightarrow> string" where
  "join_str sep [] = []"
| "join_str sep [x] = x"
| "join_str sep (x # y # ys) = x @ sep @ join_str sep (y # ys)"

text \<open>
  \<^verbatim>\<open>
  def serialize_gr_command(**cmd):
      payload = cmd.pop("payload", None)
      cmd = ",".join(f"{k}={v}" for k, v in cmd.items())
      ans = []
      w = ans.append
      w(b"\033_G"), w(cmd.encode("ascii"))
      if payload:
          w(b";")
          w(payload)
      w(b"\033\\")
      return b"".join(ans)
  \<close>
  The keyword \<^verbatim>\<open>payload\<close> is the second argument of the model and the other keywords,
  in the order of the call, the first. A payload that is absent or empty is left out
  together with its semicolon. The names and values that this program passes are ASCII,
  so \<^verbatim>\<open>encode("ascii")\<close> keeps the text as it is.
\<close>

definition serialize_gr_command :: "kwargs \<Rightarrow> string option \<Rightarrow> string" where
  "serialize_gr_command cmd payload =
     (let cmd_str = join_str '','' (map (\<lambda>(k, v). k @ ''='' @ py_str v) cmd);
          ans = [[CHR 0x1B, CHR ''_'', CHR ''G''], cmd_str];
          ans = (case payload of
                   None \<Rightarrow> ans
                 | Some p \<Rightarrow> if p \<noteq> [] then ans @ [[CHR '';''], p] else ans);
          ans = ans @ [[CHR 0x1B, CHR 0x5C]]
      in concat ans)"

text \<open>
  \<^verbatim>\<open>
  def write_chunked(self, **cmd):
      self.png.seek(0)
      data = standard_b64encode(self.png.read())
      while data:
          chunk, data = data[:4096], data[4096:]
          m = 1 if data else 0
          self.buf.write(self.serialize_gr_command(payload=chunk, m=m, **cmd))
          self.buf.flush()
          cmd.clear()
  \<close>
  \<open>write_chunked_calls\<close> is the loop: it lists, in order, the keyword arguments and the
  payload of each call of \<^verbatim>\<open>serialize_gr_command\<close>. The keyword \<^verbatim>\<open>m\<close> comes before the
  keywords of \<^verbatim>\<open>cmd\<close>, and \<^verbatim>\<open>cmd\<close> is empty from the second round on.
  \<open>write_chunked\<close> lists what the rounds write to \<^verbatim>\<open>self.buf\<close>, one frame each.
\<close>

function write_chunked_calls :: "string \<Rightarrow> kwargs \<Rightarrow> (kwargs \<times> string) list" where
  "write_chunked_calls data cmd =
     (if data = [] then []
      else ((''m'', PInt (if drop 4096 data \<noteq> [] then 1 else 0)) # cmd, take 4096 data)
             # write_chunked_calls (drop 4096 data) [])"
  by pat_completeness auto
termination
  by (relation "measure (\<lambda>(data, cmd). length data)") auto

declare write_chunked_calls.simps [simp del]

definition write_chunked :: "byte list \<Rightarrow> kwargs \<Rightarrow> string list" where
  "write_chunked png cmd =
     map (\<lambda>(c, chunk). serialize_gr_command c (Some chunk))
       (write_chunked_calls (standard_b64encode png) cmd)"

text \<open>
  What a reader takes as the payload of one frame
  (escape, \<^verbatim>\<open>_G\<close>, the keywords, a semicolon, the payload, escape, backslash): the bytes after the first semicolon,
  without the two closing bytes.
\<close>

definition frame_payload :: "string \<Rightarrow> string" where
  "frame_payload fr =
     (case dropWhile (\<lambda>c. c \<noteq> CHR '';'') fr of
        [] \<Rightarrow> []
      | _ # rest \<Rightarrow> take (length rest - 2) rest)"

subsection \<open>Construction of a \<^verbatim>\<open>KittyImage\<close>\<close>

text \<open>
  \<^verbatim>\<open>
  def __init__(self, url):
      img_response = requests.get(url, stream=True)
      img = Image.open(io.BytesIO(img_response.content))
      self.png = io.BytesIO()
      img.resize(size=(300, 300)).save(self.png, format="png")
      self.buf = io.BytesIO()
      self.write_chunked(a="T", f=100)
      self.buf.seek(0)
      self.segment = Segment(self.buf.read().decode(), style=Style.null())
  \<close>
  Retrieval, decoding and the resizing to a PNG of 300 by 300 pixels are done by
  libraries and are parameters of the model. Each of the three steps can raise:
  \<^verbatim>\<open>requests.get\<close> when the URL cannot be fetched; \<^verbatim>\<open>Image.open\<close>, which only reads the
  header, when it does not recognise the format; and \<^verbatim>\<open>img.resize(...).save(...)\<close>, which
  reads the pixel data, when the data behind an accepted header is truncated or corrupt
  or cannot be written as PNG. The constructor catches nothing. The result is the text of
  the segment, which is the whole buffer.
\<close>

record 'img imaging =
  requests_get :: "string \<Rightarrow> py_error + byte list"
  Image_open :: "byte list \<Rightarrow> py_error + 'img"
  resize_save_png :: "'img \<Rightarrow> py_error + byte list"

definition KittyImage_init :: "'img imaging \<Rightarrow> string \<Rightarrow> py_error + string" where
  "KittyImage_init env url =
     (case requests_get env url of
        Inl e \<Rightarrow> Inl e
      | Inr content \<Rightarrow>
          (case Image_open env content of
             Inl e \<Rightarrow> Inl e
           | Inr img \<Rightarrow>
               (case resize_save_png env img of
                  Inl e \<Rightarrow> Inl e
                | Inr png \<Rightarrow>
                    (let buf = concat (write_chunked png [(''a'', PStr ''T''), (''f'', PInt 100)])
                     in Inr buf))))"

text \<open>
  Three environments: one whose decoder does not recognise the bytes, one whose decoder
  accepts the header and fails on the pixel data, and one in which every step succeeds.
\<close>

definition broken_image_env :: "unit imaging" where
  "broken_image_env =
     \<lparr>requests_get = (\<lambda>url. Inr [0x6E, 0x6F, 0x70, 0x65]),
      Image_open = (\<lambda>content. Inl UnidentifiedImageError),
      resize_save_png = (\<lambda>img. Inr [])\<rparr>"

definition truncated_image_env :: "unit imaging" where
  "truncated_image_env =
     \<lparr>requests_get = (\<lambda>url. Inr [0x89, 0x50, 0x4E, 0x47]),
      Image_open = (\<lambda>content. Inr ()),
      resize_save_png = (\<lambda>img. Inl OSError)\<rparr>"

definition working_image_env :: "unit imaging" where
  "working_image_env =
     \<lparr>requests_get = (\<lambda>url. Inr [0x89, 0x50, 0x4E, 0x47]),
      Image_open = (\<lambda>content. Inr ()),
      resize_save_png = (\<lambda>img. Inr [1, 2, 3])\<rparr>"

section \<open>Login and feed (src/src/lui/_main.py)\<close>

subsection \<open>The remote server and the client handle\<close>

text \<open>
  \<^verbatim>\<open>Lemmy(inst)\<close> asks the endpoint for its nodeinfo document, which stays \<^verbatim>\<open>None\<close> when
  the endpoint does not answer as a compatible server; \<^verbatim>\<open>lemmy.log_in\<close> reports whether
  the credentials were accepted; \<^verbatim>\<open>lemmy.search\<close> returns the reply, or \<^verbatim>\<open>None\<close> when
  the request failed. All three belong to the client library and are parameters of the
  model. A handle records its endpoint, its nodeinfo and whether it has logged in.
\<close>

type_synonym nodeinfo = "(string \<times> string) list"

record lemmy =
  api_base_url :: string
  nodeinfo :: "nodeinfo option"
  authenticated :: bool

text \<open>The \<^verbatim>\<open>"post"\<close> dictionary of one search result; the three keys read are optional.\<close>

record post_record =
  pr_name :: "string option"
  pr_body :: "string option"
  pr_thumbnail_url :: "string option"

record server =
  fetch_nodeinfo :: "string \<Rightarrow> nodeinfo option"
  check_login :: "string \<Rightarrow> string \<Rightarrow> string \<Rightarrow> bool"
  run_query ::
    "lemmy \<Rightarrow> string \<Rightarrow> string \<Rightarrow> string \<Rightarrow> string \<Rightarrow> nat \<Rightarrow> post_record list option"

subsection \<open>The widgets\<close>

record post =
  title :: string
  body :: string
  thumbnail :: "string option"

text \<open>
  A \<^verbatim>\<open>Post\<close> widget is an object of its own: every post mounted gets a number that no
  earlier post had. The focus is on a post, named by its number, or on a widget outside
  the post list, named by its id.
\<close>

datatype focus = FocusInput string | FocusPost nat

text \<open>
  The calls that leave the program or change the widget tree, in the order in which they
  are made: the discovery made by \<^verbatim>\<open>Lemmy(inst)\<close>, \<^verbatim>\<open>lemmy.log_in\<close>, \<^verbatim>\<open>lemmy.search\<close> with
  its handle and keyword arguments, \<^verbatim>\<open>remove_children\<close>, \<^verbatim>\<open>mount\<close>, the task created for
  a thumbnail, and \<^verbatim>\<open>focus\<close>.
\<close>

datatype event =
    is_Discover: Discover string
  | is_LogIn: LogIn string string string
  | is_Search: Search lemmy string string string string nat
  | is_RemoveChildren: RemoveChildren
  | is_Mount: Mount post
  | is_ThumbnailTask: ThumbnailTask string
  | is_FocusEv: FocusEv focus

text \<open>
  The state of the application: the label of the login form, the class \<^verbatim>\<open>logged\<close> of the
  application, the reactive attribute \<^verbatim>\<open>LemmyView.lemmy\<close>, the values of the four search
  inputs, the class \<^verbatim>\<open>searching\<close>, the children of the \<^verbatim>\<open>PostView\<close> (their contents
  in \<open>posts\<close> and, in the same order, their numbers in \<open>post_ids\<close>), the number that the
  next post gets, the widget that has the focus, the focusable widgets outside the post
  list in the order of the focus chain, and the calls made so far.
\<close>

record app =
  label :: string
  logged :: bool
  lemmy_cell :: "lemmy option"
  query :: string
  searchtype :: string
  sorttype :: string
  listingtype :: string
  searching :: bool
  posts :: "post list"
  post_ids :: "nat list"
  next_id :: nat
  focused :: "focus option"
  focus_chain :: "string list"
  log :: "event list"

subsection \<open>Strings\<close>

definition startswith :: "string \<Rightarrow> string \<Rightarrow> bool" where
  "startswith s prefix = (take (length prefix) s = prefix)"

text \<open>\<^verbatim>\<open>s.strip(chars)\<close> returns a new string without the leading and trailing \<open>chars\<close>.\<close>

definition py_strip :: "string \<Rightarrow> string \<Rightarrow> string" where
  "py_strip s chars =
     rev (dropWhile (\<lambda>c. c \<in> set chars) (rev (dropWhile (\<lambda>c. c \<in> set chars) s)))"

text \<open>The truth value of \<^verbatim>\<open>lemmy.nodeinfo\<close>: \<^verbatim>\<open>None\<close> and the empty dictionary are false.\<close>

definition truthy :: "nodeinfo option \<Rightarrow> bool" where
  "truthy ni = (case ni of None \<Rightarrow> False | Some d \<Rightarrow> d \<noteq> [])"

subsection \<open>The post list\<close>

text \<open>
  \<^verbatim>\<open>
  def add_post(self, post_contents: dict) -> None:
      post = Post()
      post.title = post_contents["post"].get("name", "")
      post.body = post_contents["post"].get("body", "")
      self.mount(post)
      post.thumbnail = post_contents["post"].get("thumbnail_url", None)
  \<close>
  The post is mounted after the other children, before its thumbnail is set. Setting the
  reactive \<^verbatim>\<open>thumbnail\<close> to a URL runs \<^verbatim>\<open>watch_thumbnail\<close>, which creates the task that
  loads the image; the task itself runs later and is not modelled.
\<close>

definition post_of :: "post_record \<Rightarrow> post" where
  "post_of pc =
     \<lparr>title = (case pr_name pc of None \<Rightarrow> [] | Some n \<Rightarrow> n),
      body = (case pr_body pc of None \<Rightarrow> [] | Some b \<Rightarrow> b),
      thumbnail = pr_thumbnail_url pc\<rparr>"

definition add_post_events :: "post_record \<Rightarrow> event list" where
  "add_post_events pc =
     Mount ((post_of pc)\<lparr>thumbnail := None\<rparr>)
       # (case pr_thumbnail_url pc of None \<Rightarrow> [] | Some url \<Rightarrow> [ThumbnailTask url])"

definition add_post :: "post_record \<Rightarrow> app \<Rightarrow> app" where
  "add_post pc s =
     s\<lparr>posts := posts s @ [post_of pc], post_ids := post_ids s @ [next_id s],
       next_id := Suc (next_id s), log := log s @ add_post_events pc\<rparr>"

text \<open>
  \<^verbatim>\<open>postview.remove_children()\<close> detaches every child at once. When the focused widget is
  among the widgets detached, the toolkit moves the focus before it returns: to the last
  widget of the focus chain that is not being removed, or to no widget when there is
  none. The posts are the last widgets of the focus chain, so the widget chosen is the
  last focusable widget outside the post list. A focus outside the post list stays.
\<close>

definition reset_focus :: "string list \<Rightarrow> focus option" where
  "reset_focus chain = (case rev chain of [] \<Rightarrow> None | w # _ \<Rightarrow> Some (FocusInput w))"

fun focus_after_removal :: "focus option \<Rightarrow> string list \<Rightarrow> focus option" where
  "focus_after_removal (Some (FocusPost k)) chain = reset_focus chain"
| "focus_after_removal other chain = other"

definition remove_children :: "app \<Rightarrow> app" where
  "remove_children s =
     s\<lparr>posts := [], post_ids := [],
       focused := focus_after_removal (focused s) (focus_chain s),
       log := log s @ [RemoveChildren]\<rparr>"

text \<open>
  \<^verbatim>\<open>
  def action_search(self) -> None:
      if self.lemmy is None:
          return
      search = self.query_one("#search", Search)
      result = self.lemmy.search(
          q=search.query_one("#query", Input).value,
          type_=SearchType(search.query_one("#searchtype", Select).value),
          sort=SortType(search.query_one("#sorttype", Select).value),
          listing_type=ListingType(search.query_one("#listingtype", Select).value),
          limit=20,
      )
      postview = self.query_one(PostView)
      postview.remove_children()
      search.remove_class("searching")
      for post in result["posts"]:
          postview.add_post(post)
      if result["posts"]:
          postview.query(Post)[0].focus()
  \<close>
  The three selections offer the values of their enumerations only and cannot be blank,
  so the conversions to \<^verbatim>\<open>SearchType\<close>, \<^verbatim>\<open>SortType\<close> and \<^verbatim>\<open>ListingType\<close> keep the
  value. When the search returned \<^verbatim>\<open>None\<close>, \<^verbatim>\<open>result["posts"]\<close> raises TypeError, after
  the children have been removed. \<^verbatim>\<open>postview.query(Post)[0]\<close> is the first child of the
  view and raises IndexError when the view has no post. The result is the state reached
  and the exception raised, if any.
\<close>

definition action_search :: "server \<Rightarrow> app \<Rightarrow> app \<times> py_error option" where
  "action_search srv s =
     (case lemmy_cell s of
        None \<Rightarrow> (s, None)
      | Some lem \<Rightarrow>
          (let result = run_query srv lem (query s) (searchtype s) (sorttype s) (listingtype s) 20;
               s1 = s\<lparr>log := log s
                        @ [Search lem (query s) (searchtype s) (sorttype s) (listingtype s) 20]\<rparr>;
               s2 = remove_children s1;
               s3 = s2\<lparr>searching := False\<rparr>
           in (case result of
                 None \<Rightarrow> (s3, Some TypeError)
               | Some ps \<Rightarrow>
                   (let s4 = foldl (\<lambda>st pc. add_post pc st) s3 ps
                    in if ps \<noteq> [] then
                         (case post_ids s4 of
                            [] \<Rightarrow> (s4, Some IndexError)
                          | k # _ \<Rightarrow>
                              (s4\<lparr>focused := Some (FocusPost k),
                                  log := log s4 @ [FocusEv (FocusPost k)]\<rparr>, None))
                       else (s4, None)))))"

subsection \<open>The session\<close>

text \<open>
  \<^verbatim>\<open>
  def watch_lemmy(self, old: Lemmy | None, lemmy: Lemmy) -> None:
      if lemmy is None or (old is not None and lemmy.nodeinfo == old.nodeinfo):
          return
      self.action_search()
  \<close>
\<close>

definition watch_lemmy ::
  "server \<Rightarrow> lemmy option \<Rightarrow> lemmy option \<Rightarrow> app \<Rightarrow> app \<times> py_error option" where
  "watch_lemmy srv old new s =
     (case new of
        None \<Rightarrow> (s, None)
      | Some lem \<Rightarrow>
          (if old \<noteq> None \<and> nodeinfo lem = nodeinfo (the old) then (s, None)
           else action_search srv s))"

text \<open>
  \<^verbatim>\<open>
  def connect_lemmy_view(self, lemmy: Lemmy) -> None:
      self.query_one(LemmyView).lemmy = lemmy
  \<close>
  The assignment to the reactive attribute stores the value and, the value being another
  object than the one held, calls \<^verbatim>\<open>watch_lemmy\<close> with the old and the new value before it
  returns. \<^verbatim>\<open>Lemmy\<close> defines no equality and \<^verbatim>\<open>log_in\<close>, the only caller, passes a handle
  that it has just made, so the watcher is called every time.
\<close>

definition connect_lemmy_view :: "server \<Rightarrow> lemmy \<Rightarrow> app \<Rightarrow> app \<times> py_error option" where
  "connect_lemmy_view srv lem s =
     watch_lemmy srv (lemmy_cell s) (Some lem) (s\<lparr>lemmy_cell := Some lem\<rparr>)"

text \<open>
  \<^verbatim>\<open>
  def log_in(self) -> None:
      inst = self.query_one("#inst", Input).value
      if not inst.startswith("http"):
          inst = "https://" + inst
      inst.strip("/")
      user = self.query_one("#user", Input).value
      passwd = self.query_one("#passwd", Input).value
      label = self.query_one(Label)
      if not (lemmy := Lemmy(inst)).nodeinfo:
          label.update(f"Failed connection to {inst}")
          return
      if user and passwd:
          if not lemmy.log_in(user, passwd):
              label.update(f"Failed login for {user}")
              return

      label.update("Success!")
      self.parent.parent.add_class("logged")
      self.parent.parent.connect_lemmy_view(lemmy)
  \<close>
  \<open>log_in_inst\<close> is the value of \<^verbatim>\<open>inst\<close> that reaches \<^verbatim>\<open>Lemmy(inst)\<close>. The statement
  \<^verbatim>\<open>inst.strip("/")\<close> computes the stripped string and drops it: Python strings are
  immutable and the result is not assigned.
\<close>

definition log_in_inst :: "string \<Rightarrow> string" where
  "log_in_inst inst0 =
     (let inst = (if \<not> startswith inst0 ''http'' then ''https://'' @ inst0 else inst0);
          discarded = py_strip inst ''/''
      in inst)"

definition log_in ::
  "server \<Rightarrow> string \<Rightarrow> string \<Rightarrow> string \<Rightarrow> app \<Rightarrow> app \<times> py_error option" where
  "log_in srv inst0 user passwd s =
     (let inst = log_in_inst inst0;
          lem = \<lparr>api_base_url = inst, nodeinfo = fetch_nodeinfo srv inst, authenticated = False\<rparr>;
          s1 = s\<lparr>log := log s @ [Discover inst]\<rparr>
      in if \<not> truthy (nodeinfo lem) then (s1\<lparr>label := ''Failed connection to '' @ inst\<rparr>, None)
         else if user \<noteq> [] \<and> passwd \<noteq> [] then
           (let ok = check_login srv inst user passwd;
                s2 = s1\<lparr>log := log s1 @ [LogIn inst user passwd]\<rparr>
            in if \<not> ok then (s2\<lparr>label := ''Failed login for '' @ user\<rparr>, None)
               else connect_lemmy_view srv (lem\<lparr>authenticated := True\<rparr>)
                      (s2\<lparr>label := ''Success!'', logged := True\<rparr>))
         else connect_lemmy_view srv lem (s1\<lparr>label := ''Success!'', logged := True\<rparr>))"

subsection \<open>A server and two states to run the model on\<close>

definition example_server :: server where
  "example_server =
     \<lparr>fetch_nodeinfo = (\<lambda>inst. if inst = ''https://example.org''
                                then Some [(''software'', ''lemmy'')] else None),
      check_login = (\<lambda>inst user passwd. user = ''alice'' \<and> passwd = ''secret''),
      run_query = (\<lambda>lem q t so li lim.
         if q = ''nothing'' then Some [] else
         Some (take lim [\<lparr>pr_name = Some ''cats'', pr_body = None,
                           pr_thumbnail_url = Some ''https://example.org/cat.png''\<rparr>,
                         \<lparr>pr_name = Some ''dogs'', pr_body = Some ''woof'',
                           pr_thumbnail_url = None\<rparr>]))\<rparr>"

definition initial_app :: app where
  "initial_app =
     \<lparr>label = [], logged = False, lemmy_cell = None, query = [],
      searchtype = ''Posts'', sorttype = ''Active'', listingtype = ''All'',
      searching = False, posts = [], post_ids = [], next_id = 0, focused = None,
      focus_chain = [''inst'', ''user'', ''passwd'', ''query'', ''searchtype'', ''sorttype'',
                     ''listingtype'', ''posts''],
      log = []\<rparr>"

definition logged_in_app :: app where
  "logged_in_app = fst (log_in example_server ''example.org'' ''alice'' ''secret'' initial_app)"

text \<open>A server whose search requests fail, and one that ignores the limit it is given.\<close>

definition failing_search_server :: server where
  "failing_search_server = example_server\<lparr>run_query := (\<lambda>lem q t so li lim. None)\<rparr>"

definition flooding_server :: server where
  "flooding_server =
     example_server\<lparr>run_query := (\<lambda>lem q t so li lim.
        Some (replicate 25 \<lparr>pr_name = Some ''cats'', pr_body = None,
                              pr_thumbnail_url = None\<rparr>))\<rparr>"

text \<open>The numbers of \<open>k\<close> posts mounted one after the other, starting at number \<open>n\<close>.\<close>

primrec fresh_ids :: "nat \<Rightarrow> nat \<Rightarrow> nat list" where
  "fresh_ids n 0 = []"
| "fresh_ids n (Suc k) = n # fresh_ids (Suc n) k"



section \<open>Properties of the selection\<close>

lemma py_index_in_range:
  "0 \<le> i \<Longrightarrow> i < int (length xs) \<Longrightarrow> py_index xs i = Some (nat i)"
  by (simp add: py_index_def)

lemma move_selection_in_range:
  assumes "selected pv \<noteq> []" "0 \<le> idx pv" "idx pv < int (length (selected pv))"
  shows "move_selection d pv =
           Inr (pv\<lparr>idx := (idx pv + d) mod int (length (selected pv)),
                   selected := ((selected pv)[nat (idx pv) := False])
                       [nat ((idx pv + d) mod int (length (selected pv))) := True]\<rparr>)"
proof -
  let ?n = "int (length (selected pv))"
  have pos: "0 < ?n" using assms(1) by simp
  have lo: "0 \<le> (idx pv + d) mod ?n" using pos by simp
  have hi: "(idx pv + d) mod ?n < ?n" using pos by simp
  have first: "py_index (selected pv) (idx pv) = Some (nat (idx pv))"
    using assms(2,3) by (rule py_index_in_range)
  have second: "py_index ((selected pv)[nat (idx pv) := False]) ((idx pv + d) mod ?n)
                  = Some (nat ((idx pv + d) mod ?n))"
    using lo hi by (simp add: py_index_def)
  show ?thesis
    using assms(1) first second by (simp add: move_selection_def Let_def)
qed

lemma repeat_move_idx:
  assumes "selected pv \<noteq> []" "0 \<le> idx pv" "idx pv < int (length (selected pv))"
  shows "\<exists>pv'. repeat_action k (move_selection d) pv = Inr pv'
           \<and> idx pv' = (idx pv + int k * d) mod int (length (selected pv))
           \<and> length (selected pv') = length (selected pv)"
  using assms
proof (induction k arbitrary: pv)
  case 0
  then show ?case by simp
next
  case (Suc k)
  let ?n = "int (length (selected pv))"
  let ?pv1 = "pv\<lparr>idx := (idx pv + d) mod ?n,
                  selected := ((selected pv)[nat (idx pv) := False])
                      [nat ((idx pv + d) mod ?n) := True]\<rparr>"
  have step: "move_selection d pv = Inr ?pv1"
    using Suc.prems by (rule move_selection_in_range)
  have pos: "0 < ?n" using Suc.prems(1) by simp
  have len1: "length (selected ?pv1) = length (selected pv)" by simp
  have ne1: "selected ?pv1 \<noteq> []" using Suc.prems(1) by simp
  have lo1: "0 \<le> idx ?pv1" using pos by simp
  have hi1: "idx ?pv1 < int (length (selected ?pv1))" using pos by simp
  from Suc.IH [OF ne1 lo1 hi1] obtain pv' where
    run: "repeat_action k (move_selection d) ?pv1 = Inr pv'" and
    ix: "idx pv' = (idx ?pv1 + int k * d) mod int (length (selected ?pv1))" and
    ln: "length (selected pv') = length (selected ?pv1)"
    by blast
  have "idx pv' = ((idx pv + d) mod ?n + int k * d) mod ?n"
    using ix by simp
  also have "\<dots> = (idx pv + d + int k * d) mod ?n"
    by (simp add: mod_add_left_eq)
  also have "\<dots> = (idx pv + int (Suc k) * d) mod ?n"
    by (simp add: algebra_simps)
  finally have ix': "idx pv' = (idx pv + int (Suc k) * d) mod ?n" .
  show ?case
    using step run ix' ln by simp
qed

text \<open>
  Claim C9. With a non-empty post list of \<open>count\<close> items and a selection index in
  \<open>[0, count)\<close>, each move sets the index to \<open>(index + delta) mod count\<close>, and going down
  \<open>count\<close> times raises nothing and brings the index back to where it started. With an
  empty list a move in any direction raises nothing and returns the view as it was.
\<close>

theorem move_selection_wraparound:
  "(selected pv \<noteq> [] \<and> 0 \<le> idx pv \<and> idx pv < int (length (selected pv)) \<longrightarrow>
      (\<exists>pv1. move_selection d pv = Inr pv1
         \<and> idx pv1 = (idx pv + d) mod int (length (selected pv)))
      \<and> (\<exists>pv'. repeat_action (length (selected pv)) action_go_down pv = Inr pv'
            \<and> idx pv' = idx pv))
   \<and> (selected pv = [] \<longrightarrow> move_selection d pv = Inr pv)"
proof (intro conjI impI)
  assume a: "selected pv \<noteq> [] \<and> 0 \<le> idx pv \<and> idx pv < int (length (selected pv))"
  then have ne: "selected pv \<noteq> []" and lo: "0 \<le> idx pv"
    and hi: "idx pv < int (length (selected pv))" by simp_all
  show "\<exists>pv1. move_selection d pv = Inr pv1
          \<and> idx pv1 = (idx pv + d) mod int (length (selected pv))"
    using move_selection_in_range [OF ne lo hi, of d] by simp
  have down: "action_go_down = move_selection 1"
    by (rule ext) (simp add: action_go_down_def)
  from repeat_move_idx [OF ne lo hi, of "length (selected pv)" 1]
  obtain pv' where run: "repeat_action (length (selected pv)) action_go_down pv = Inr pv'"
    and ix: "idx pv' = (idx pv + int (length (selected pv)) * 1) mod int (length (selected pv))"
    unfolding down by blast
  have "idx pv' = idx pv" using ix lo hi by simp
  then show "\<exists>pv'. repeat_action (length (selected pv)) action_go_down pv = Inr pv'
                \<and> idx pv' = idx pv"
    using run by blast
next
  assume "selected pv = []"
  then show "move_selection d pv = Inr pv"
    by (simp add: move_selection_def)
qed

theorem move_selection_wraparound_witness:
  "(\<exists>pv1. move_selection 1 \<lparr>idx = 2, selected = [False, False, True]\<rparr> = Inr pv1 \<and> idx pv1 = 0)
   \<and> (\<exists>pv'. repeat_action 3 action_go_down \<lparr>idx = 2, selected = [False, False, True]\<rparr> = Inr pv'
         \<and> idx pv' = 2)
   \<and> move_selection 1 \<lparr>idx = 0, selected = []\<rparr> = Inr \<lparr>idx = 0, selected = []\<rparr>"
  using move_selection_wraparound [of "\<lparr>idx = 2, selected = [False, False, True]\<rparr>" 1]
    move_selection_wraparound [of "\<lparr>idx = 0, selected = []\<rparr>" 1]
  by (simp add: numeral_3_eq_3)

section \<open>Properties of the image transport\<close>

subsection \<open>Base64 decoding inverts encoding\<close>

lemma find_index_of_nth:
  "distinct xs \<Longrightarrow> i < length xs \<Longrightarrow> find_index_of (xs ! i) xs = Some i"
proof (induction xs arbitrary: i)
  case Nil
  then show ?case by simp
next
  case (Cons x xs)
  show ?case
  proof (cases i)
    case 0
    then show ?thesis by simp
  next
    case (Suc j)
    with Cons.prems have "xs ! j \<in> set xs" "x \<notin> set xs" by auto
    then have "x \<noteq> xs ! j" by auto
    with Cons Suc show ?thesis by simp
  qed
qed

lemma distinct_b64_alphabet: "distinct b64_alphabet"
  by (simp add: b64_alphabet_def)

lemma length_b64_alphabet: "length b64_alphabet = 64"
  by (simp add: b64_alphabet_def)

lemma b64_index_char: "i < 64 \<Longrightarrow> b64_index (b64_char i) = Some i"
  by (simp add: b64_index_def b64_char_def find_index_of_nth distinct_b64_alphabet
      length_b64_alphabet)

lemma b64_char_not_pad: "i < 64 \<Longrightarrow> b64_char i \<noteq> CHR ''=''"
proof -
  assume "i < 64"
  then have "b64_char i \<in> set b64_alphabet"
    by (simp add: b64_char_def length_b64_alphabet)
  moreover have "CHR ''='' \<notin> set b64_alphabet"
    by (simp add: b64_alphabet_def)
  ultimately show ?thesis by auto
qed


lemma sextets_join:
  fixes n :: nat
  shows "join_sextets [n div 262144, n div 4096 mod 64, n div 64 mod 64, n mod 64] = n"
proof -
  have a: "n div 4096 = n div 64 div 64" by (simp add: div_mult2_eq [symmetric])
  have b: "n div 262144 = n div 64 div 64 div 64" by (simp add: div_mult2_eq [symmetric])
  show ?thesis unfolding a b join_sextets_def by simp
qed

lemma sextets_join2:
  fixes n :: nat
  shows "join_sextets [n div 262144, n div 4096 mod 64, n div 64 mod 64] = n div 64"
proof -
  have a: "n div 4096 = n div 64 div 64" by (simp add: div_mult2_eq [symmetric])
  have b: "n div 262144 = n div 64 div 64 div 64" by (simp add: div_mult2_eq [symmetric])
  show ?thesis unfolding a b join_sextets_def by simp
qed

lemma sextets_join1:
  fixes n :: nat
  shows "join_sextets [n div 262144, n div 4096 mod 64] = n div 4096"
proof -
  have b: "n div 262144 = n div 4096 div 64" by (simp add: div_mult2_eq [symmetric])
  show ?thesis unfolding b join_sextets_def by simp
qed

lemma sextet0_bound:
  fixes n :: nat
  assumes "n < 16777216"
  shows "n div 262144 < 64"
  using assms by (simp add: less_mult_imp_div_less)

lemma bytes3:
  fixes A B C :: nat
  assumes "B < 256" "C < 256"
  shows "(A * 65536 + B * 256 + C) div 65536 = A"
    and "(A * 65536 + B * 256 + C) div 256 mod 256 = B"
    and "(A * 65536 + B * 256 + C) mod 256 = C"
proof -
  have r: "B * 256 + C < 65536" using assms by simp
  have "(A * 65536 + (B * 256 + C)) div 65536 = A" using r by simp
  then show "(A * 65536 + B * 256 + C) div 65536 = A" by (simp add: add.assoc)
  have "((A * 256 + B) * 256 + C) div 256 = A * 256 + B" using assms(2) by simp
  moreover have "(A * 256 + B) * 256 + C = A * 65536 + B * 256 + C" by simp
  ultimately have d: "(A * 65536 + B * 256 + C) div 256 = A * 256 + B" by simp
  show "(A * 65536 + B * 256 + C) div 256 mod 256 = B" unfolding d using assms(1) by simp
  have eq: "A * 65536 + B * 256 + C = C + (A * 256 + B) * 256" by simp
  have "(C + k * 256) mod 256 = C" for k :: nat using assms(2) by simp
  then have "(C + (A * 256 + B) * 256) mod 256 = C" .
  then show "(A * 65536 + B * 256 + C) mod 256 = C" by (simp only: eq)
qed

lemma bytes2:
  fixes A B :: nat
  assumes "B < 256"
  shows "(A * 65536 + B * 256) div 64 div 1024 = A"
    and "(A * 65536 + B * 256) div 64 div 4 mod 256 = B"
proof -
  have e: "(A * 65536 + B * 256) div 64 = A * 1024 + B * 4"
  proof -
    have "A * 65536 + B * 256 = (A * 1024 + B * 4) * 64" by simp
    then show ?thesis by (metis nonzero_mult_div_cancel_right zero_neq_numeral)
  qed
  have "B * 4 < 1024" using assms by simp
  then show "(A * 65536 + B * 256) div 64 div 1024 = A" unfolding e by simp
  have "(A * 1024 + B * 4) div 4 = A * 256 + B"
  proof -
    have "A * 1024 + B * 4 = (A * 256 + B) * 4" by simp
    then show ?thesis by (metis nonzero_mult_div_cancel_right zero_neq_numeral)
  qed
  then show "(A * 65536 + B * 256) div 64 div 4 mod 256 = B" unfolding e using assms by simp
qed

lemma bytes1:
  fixes A :: nat
  shows "(A * 65536) div 4096 div 16 = A"
proof -
  have "A * 65536 = A * 16 * 4096" by simp
  then have "(A * 65536) div 4096 = A * 16"
    by (metis nonzero_mult_div_cancel_right zero_neq_numeral)
  then show ?thesis by simp
qed


lemma unat_byte_less: "unat (b :: byte) < 256"
  using unsigned_less [of b, where ?'a = nat] by simp

lemma group_bound:
  fixes a b c :: byte
  shows "unat a * 65536 + unat b * 256 + unat c < 16777216"
proof -
  have "unat a < 256" "unat b < 256" "unat c < 256"
    by (rule unat_byte_less)+
  then show ?thesis by simp
qed

lemma decode_group3:
  fixes a b c :: byte
  defines "n \<equiv> unat a * 65536 + unat b * 256 + unat c"
  shows "standard_b64decode
           (b64_char (n div 262144) # b64_char (n div 4096 mod 64)
              # b64_char (n div 64 mod 64) # b64_char (n mod 64) # rest)
         = map_option (\<lambda>bs. a # b # c # bs) (standard_b64decode rest)"
proof -
  have ub: "unat b < 256" and uc: "unat c < 256"
    by (rule unat_byte_less)+
  have n24: "n < 16777216" unfolding n_def by (rule group_bound)
  have i0: "b64_index (b64_char (n div 262144)) = Some (n div 262144)"
    using sextet0_bound [OF n24] by (rule b64_index_char)
  have i1: "b64_index (b64_char (n div 4096 mod 64)) = Some (n div 4096 mod 64)"
    by (rule b64_index_char) simp
  have i2: "b64_index (b64_char (n div 64 mod 64)) = Some (n div 64 mod 64)"
    by (rule b64_index_char) simp
  have i3: "b64_index (b64_char (n mod 64)) = Some (n mod 64)"
    by (rule b64_index_char) simp
  have np: "b64_char (n mod 64) \<noteq> CHR ''=''"
    by (rule b64_char_not_pad) simp
  have ba: "of_nat (n div 65536) = a"
    unfolding n_def bytes3(1) [OF ub uc] by simp
  have bb: "of_nat (n div 256 mod 256) = b"
    unfolding n_def bytes3(2) [OF ub uc] by simp
  have bc: "of_nat (n mod 256) = c"
    unfolding n_def bytes3(3) [OF ub uc] by simp
  show ?thesis
    by (simp add: i0 i1 i2 i3 np sextets_join ba bb bc del: of_nat_add of_nat_mult)
qed

lemma decode_group2:
  fixes a b :: byte
  defines "n \<equiv> unat a * 65536 + unat b * 256"
  shows "standard_b64decode
           [b64_char (n div 262144), b64_char (n div 4096 mod 64),
            b64_char (n div 64 mod 64), CHR ''='']
         = Some [a, b]"
proof -
  have ub: "unat b < 256" by (rule unat_byte_less)
  have n24: "n < 16777216" using group_bound [of a b 0] by (simp add: n_def)
  have i0: "b64_index (b64_char (n div 262144)) = Some (n div 262144)"
    using sextet0_bound [OF n24] by (rule b64_index_char)
  have i1: "b64_index (b64_char (n div 4096 mod 64)) = Some (n div 4096 mod 64)"
    by (rule b64_index_char) simp
  have i2: "b64_index (b64_char (n div 64 mod 64)) = Some (n div 64 mod 64)"
    by (rule b64_index_char) simp
  have np: "b64_char (n div 64 mod 64) \<noteq> CHR ''=''"
    by (rule b64_char_not_pad) simp
  have ba: "of_nat (n div 64 div 1024) = a"
    unfolding n_def bytes2(1) [OF ub] by simp
  have bb: "of_nat (n div 64 div 4 mod 256) = b"
    unfolding n_def bytes2(2) [OF ub] by simp
  show ?thesis
    by (simp add: i0 i1 i2 np sextets_join2 ba bb del: of_nat_add of_nat_mult)
qed

lemma decode_group1:
  fixes a :: byte
  defines "n \<equiv> unat a * 65536"
  shows "standard_b64decode
           [b64_char (n div 262144), b64_char (n div 4096 mod 64), CHR ''='', CHR ''='']
         = Some [a]"
proof -
  have n24: "n < 16777216" using group_bound [of a 0 0] by (simp add: n_def)
  have i0: "b64_index (b64_char (n div 262144)) = Some (n div 262144)"
    using sextet0_bound [OF n24] by (rule b64_index_char)
  have i1: "b64_index (b64_char (n div 4096 mod 64)) = Some (n div 4096 mod 64)"
    by (rule b64_index_char) simp
  have ba: "of_nat (n div 4096 div 16) = a"
    unfolding n_def bytes1 by simp
  show ?thesis
    by (simp add: i0 i1 sextets_join1 ba del: of_nat_add of_nat_mult)
qed

lemma b64_roundtrip: "standard_b64decode (standard_b64encode bs) = Some bs"
proof (induction bs rule: standard_b64encode.induct)
  case 1
  show ?case by simp
next
  case (2 a)
  show ?case using decode_group1 [of a] by (simp add: Let_def)
next
  case (3 a b)
  show ?case using decode_group2 [of a b] by (simp add: Let_def)
next
  case (4 a b c rest)
  show ?case using decode_group3 [of a b c "standard_b64encode rest"] 4
    by (simp add: Let_def)
qed

subsection \<open>The chunking loop\<close>

lemma calls_Nil: "write_chunked_calls [] cmd = []"
  by (simp add: write_chunked_calls.simps)

lemma calls_Cons:
  "data \<noteq> [] \<Longrightarrow> write_chunked_calls data cmd =
     ((''m'', PInt (if drop 4096 data \<noteq> [] then 1 else 0)) # cmd, take 4096 data)
       # write_chunked_calls (drop 4096 data) []"
  by (subst write_chunked_calls.simps) simp

lemma calls_empty_iff: "write_chunked_calls data cmd = [] \<longleftrightarrow> data = []"
  by (cases "data = []") (simp_all add: calls_Nil calls_Cons)

lemma calls_payloads: "concat (map snd (write_chunked_calls data cmd)) = data"
proof (induction data cmd rule: write_chunked_calls.induct)
  case (1 data cmd)
  show ?case
  proof (cases "data = []")
    case True
    then show ?thesis by (simp add: calls_Nil)
  next
    case False
    with 1 show ?thesis by (simp add: calls_Cons)
  qed
qed

lemma calls_length:
  "length (write_chunked_calls data cmd) = (length data + 4095) div 4096"
proof (induction data cmd rule: write_chunked_calls.induct)
  case (1 data cmd)
  show ?case
  proof (cases "data = []")
    case True
    then show ?thesis by (simp add: calls_Nil)
  next
    case False
    then have pos1: "1 \<le> length data" by (cases data) simp_all
    have "length (write_chunked_calls data cmd)
            = Suc ((length data - 4096 + 4095) div 4096)"
      using 1 False by (simp add: calls_Cons)
    also have "\<dots> = (length data + 4095) div 4096"
    proof (cases "length data \<le> 4096")
      case True
      then have "length data - 4096 = 0" by simp
      moreover have "(length data + 4095) div 4096 = 1"
        by (rule div_nat_eqI) (use pos1 True in simp_all)
      ultimately show ?thesis by simp
    next
      case False
      then have "length data + 4095 = (length data - 4096 + 4095) + 4096" by simp
      then show ?thesis by (metis div_add_self2 zero_neq_numeral Suc_eq_plus1)
    qed
    finally show ?thesis .
  qed
qed

lemma calls_nth:
  "i < length (write_chunked_calls data cmd) \<Longrightarrow>
     write_chunked_calls data cmd ! i =
       ((''m'', PInt (if Suc i < length (write_chunked_calls data cmd) then 1 else 0))
          # (if i = 0 then cmd else []),
        take 4096 (drop (4096 * i) data))"
proof (induction data cmd arbitrary: i rule: write_chunked_calls.induct)
  case (1 data cmd)
  from "1.prems" have ne: "data \<noteq> []" by (auto simp: calls_Nil)
  show ?case
  proof (cases i)
    case 0
    then show ?thesis using ne by (simp add: calls_Cons calls_empty_iff)
  next
    case (Suc j)
    with "1.prems" ne have j: "j < length (write_chunked_calls (drop 4096 data) [])"
      by (simp add: calls_Cons)
    have "drop (4096 * j) (drop 4096 data) = drop (4096 * Suc j) data"
      by (simp add: add.commute)
    with "1.IH" [OF ne j] Suc ne show ?thesis
      by (simp add: calls_Cons)
  qed
qed

lemma b64encode_length: "length (standard_b64encode bs) = 4 * ((length bs + 2) div 3)"
proof (induction bs rule: standard_b64encode.induct)
  case (4 a b c rest)
  have "(length (a # b # c # rest) + 2) div 3 = Suc ((length rest + 2) div 3)"
    by simp
  with 4 show ?case by (simp add: Let_def)
qed (simp_all add: Let_def)

lemma frame_payload_serialize:
  assumes "CHR '';'' \<notin> set (join_str '','' (map (\<lambda>(k, v). k @ ''='' @ py_str v) cmd))"
    and "chunk \<noteq> []"
  shows "frame_payload (serialize_gr_command cmd (Some chunk)) = chunk"
proof -
  let ?pre = "[CHR 0x1B, CHR ''_'', CHR ''G'']
                @ join_str '','' (map (\<lambda>(k, v). k @ ''='' @ py_str v) cmd)"
  have ser: "serialize_gr_command cmd (Some chunk)
               = ?pre @ CHR '';'' # (chunk @ [CHR 0x1B, CHR 0x5C])"
    using assms(2) by (simp add: serialize_gr_command_def)
  have pre: "\<And>c. c \<in> set ?pre \<Longrightarrow> c \<noteq> CHR '';''"
    using assms(1) by auto
  have "dropWhile (\<lambda>c. c \<noteq> CHR '';'') (?pre @ CHR '';'' # (chunk @ [CHR 0x1B, CHR 0x5C]))
          = CHR '';'' # (chunk @ [CHR 0x1B, CHR 0x5C])"
    using pre by (subst dropWhile_append2) simp_all
  then show ?thesis
    unfolding ser frame_payload_def by simp
qed

lemma cmd_str_no_semicolon:
  "CHR '';'' \<notin> set (join_str '','' (map (\<lambda>(k, v). k @ ''='' @ py_str v)
       ((''m'', PInt (if b then 1 else 0)) # (if first then [(''a'', PStr ''T''), (''f'', PInt 100)] else []))))"
  by (cases b; cases first) (simp_all add: nat_digits.simps)

lemma calls_chunk_nonempty:
  assumes "i < length (write_chunked_calls data cmd)"
  shows "take 4096 (drop (4096 * i) data) \<noteq> []"
proof -
  have lt: "i < (length data + 4095) div 4096"
    using assms by (simp add: calls_length)
  have "4096 * i < length data"
  proof (rule ccontr)
    assume "\<not> 4096 * i < length data"
    then have "length data + 4095 < Suc i * 4096" by simp
    then have "(length data + 4095) div 4096 < Suc i"
      by (rule less_mult_imp_div_less)
    with lt show False by simp
  qed
  then show ?thesis by simp
qed

lemma write_chunked_length:
  "length (write_chunked png cmd) = (length (standard_b64encode png) + 4095) div 4096"
  by (simp add: write_chunked_def calls_length)

lemma write_chunked_nth:
  assumes "i < length (write_chunked png cmd)"
  shows "write_chunked png cmd ! i =
           serialize_gr_command
             ((''m'', PInt (if Suc i < length (write_chunked png cmd) then 1 else 0))
                # (if i = 0 then cmd else []))
             (Some (take 4096 (drop (4096 * i) (standard_b64encode png))))"
proof -
  have i: "i < length (write_chunked_calls (standard_b64encode png) cmd)"
    using assms by (simp add: write_chunked_def)
  show ?thesis
    using i calls_nth [OF i] by (simp add: write_chunked_def)
qed

lemma write_chunked_payloads:
  "map frame_payload (write_chunked png [(''a'', PStr ''T''), (''f'', PInt 100)])
     = map snd (write_chunked_calls (standard_b64encode png)
                  [(''a'', PStr ''T''), (''f'', PInt 100)])"
proof (rule nth_equalityI)
  let ?cmd = "[(''a'', PStr ''T''), (''f'', PInt 100)]"
  let ?calls = "write_chunked_calls (standard_b64encode png) ?cmd"
  show "length (map frame_payload (write_chunked png ?cmd)) = length (map snd ?calls)"
    by (simp add: write_chunked_def)
  fix i
  assume "i < length (map frame_payload (write_chunked png ?cmd))"
  then have i: "i < length (write_chunked png ?cmd)" by simp
  then have ic: "i < length ?calls" by (simp add: write_chunked_def)
  let ?chunk = "take 4096 (drop (4096 * i) (standard_b64encode png))"
  have ne: "?chunk \<noteq> []" using ic by (rule calls_chunk_nonempty)
  have "frame_payload (write_chunked png ?cmd ! i) = ?chunk"
    unfolding write_chunked_nth [OF i]
    using cmd_str_no_semicolon [of "Suc i < length (write_chunked png ?cmd)" "i = 0"] ne
    by (intro frame_payload_serialize) (simp_all split: if_splits)
  moreover have "snd (?calls ! i) = ?chunk"
    using calls_nth [OF ic] by simp
  ultimately show "map frame_payload (write_chunked png ?cmd) ! i = map snd ?calls ! i"
    using i ic by simp
qed

text \<open>
  Claim C1. For every PNG byte string, the payloads of the frames that \<open>write_chunked\<close>
  writes for \<^verbatim>\<open>write_chunked(a="T", f=100)\<close>, taken in the order of writing and
  concatenated, are Base64 text that decodes to exactly the bytes that were encoded.
\<close>

theorem write_chunked_roundtrip:
  "standard_b64decode
     (concat (map frame_payload (write_chunked png [(''a'', PStr ''T''), (''f'', PInt 100)])))
   = Some png"
  by (simp only: write_chunked_payloads calls_payloads b64_roundtrip)

text \<open>
  Claim C2, amended. The chunks are cut from the Base64 text, not from the image bytes:
  the number of frames is the length of the Base64 text divided by 4096 and rounded up,
  so an image of 10000 bytes, whose Base64 text has 13336 bytes, is written as 4 frames.
  Frame \<open>i\<close> is the command with \<^verbatim>\<open>m=1\<close> when another frame follows and \<^verbatim>\<open>m=0\<close> when it
  is the last, with \<^verbatim>\<open>a=T\<close> and \<^verbatim>\<open>f=100\<close> in the first frame only, and with the \<open>i\<close>-th
  block of 4096 bytes of the Base64 text as payload.
\<close>

theorem write_chunked_frames:
  "(\<forall>i < length (write_chunked png [(''a'', PStr ''T''), (''f'', PInt 100)]).
      write_chunked png [(''a'', PStr ''T''), (''f'', PInt 100)] ! i =
        serialize_gr_command
          ((''m'', PInt (if Suc i < length (write_chunked png [(''a'', PStr ''T''), (''f'', PInt 100)])
                         then 1 else 0))
             # (if i = 0 then [(''a'', PStr ''T''), (''f'', PInt 100)] else []))
          (Some (take 4096 (drop (4096 * i) (standard_b64encode png)))))
   \<and> length (write_chunked png [(''a'', PStr ''T''), (''f'', PInt 100)])
       = (length (standard_b64encode png) + 4095) div 4096
   \<and> (length png = 10000 \<longrightarrow>
        length (write_chunked png [(''a'', PStr ''T''), (''f'', PInt 100)]) = 4)"
proof (intro conjI allI impI)
  fix i
  assume "i < length (write_chunked png [(''a'', PStr ''T''), (''f'', PInt 100)])"
  then show "write_chunked png [(''a'', PStr ''T''), (''f'', PInt 100)] ! i =
        serialize_gr_command
          ((''m'', PInt (if Suc i < length (write_chunked png [(''a'', PStr ''T''), (''f'', PInt 100)])
                         then 1 else 0))
             # (if i = 0 then [(''a'', PStr ''T''), (''f'', PInt 100)] else []))
          (Some (take 4096 (drop (4096 * i) (standard_b64encode png))))"
    by (rule write_chunked_nth)
next
  show "length (write_chunked png [(''a'', PStr ''T''), (''f'', PInt 100)])
       = (length (standard_b64encode png) + 4095) div 4096"
    by (rule write_chunked_length)
next
  assume "length png = 10000"
  then show "length (write_chunked png [(''a'', PStr ''T''), (''f'', PInt 100)]) = 4"
    by (simp add: write_chunked_length b64encode_length)
qed

text \<open>
  Claim C2 as stated fails: 10000 zero bytes are written as 4 frames, not 3.
\<close>

theorem write_chunked_three_frames_counterexample:
  "length (write_chunked (replicate 10000 0) [(''a'', PStr ''T''), (''f'', PInt 100)]) = 4
   \<and> length (write_chunked (replicate 10000 0) [(''a'', PStr ''T''), (''f'', PInt 100)]) \<noteq> 3"
  by (simp add: write_chunked_length b64encode_length)

theorem write_chunked_frames_witness:
  "length (replicate 10000 (0::byte)) = 10000
   \<and> length (write_chunked (replicate 10000 0) [(''a'', PStr ''T''), (''f'', PInt 100)]) = 4
   \<and> write_chunked (replicate 10000 0) [(''a'', PStr ''T''), (''f'', PInt 100)] ! 3 =
        serialize_gr_command [(''m'', PInt 0)]
          (Some (take 4096 (drop (4096 * 3) (standard_b64encode (replicate 10000 0)))))
   \<and> write_chunked (replicate 10000 0) [(''a'', PStr ''T''), (''f'', PInt 100)] ! 0 =
        serialize_gr_command [(''m'', PInt 1), (''a'', PStr ''T''), (''f'', PInt 100)]
          (Some (take 4096 (drop (4096 * 0) (standard_b64encode (replicate 10000 0)))))"
proof -
  let ?F = "write_chunked (replicate 10000 (0::byte)) [(''a'', PStr ''T''), (''f'', PInt 100)]"
  note t = write_chunked_frames [of "replicate 10000 (0::byte)"]
  have l: "length (replicate 10000 (0::byte)) = 10000" by (rule length_replicate)
  from t l have n: "length ?F = 4" by blast
  from t have a: "\<And>i. i < length ?F \<Longrightarrow> ?F ! i =
        serialize_gr_command
          ((''m'', PInt (if Suc i < length ?F then 1 else 0))
             # (if i = 0 then [(''a'', PStr ''T''), (''f'', PInt 100)] else []))
          (Some (take 4096 (drop (4096 * i) (standard_b64encode (replicate 10000 0)))))"
    by blast
  have f3: "?F ! 3 = serialize_gr_command [(''m'', PInt 0)]
          (Some (take 4096 (drop (4096 * 3) (standard_b64encode (replicate 10000 0)))))"
    using a [of 3] by (simp only: n) simp
  have f0: "?F ! 0 = serialize_gr_command [(''m'', PInt 1), (''a'', PStr ''T''), (''f'', PInt 100)]
          (Some (take 4096 (drop (4096 * 0) (standard_b64encode (replicate 10000 0)))))"
    using a [of 0] by (simp only: n) simp
  show ?thesis using l n f3 f0 by blast
qed

subsection \<open>Images that cannot be decoded\<close>

text \<open>
  Claim C3, amended. When the image bytes cannot be decoded, whether the decoder does not
  recognise them or accepts the header and fails on the pixel data, the constructor
  raises the exception of the failing step; and whenever the constructor returns a
  stream, every step has succeeded and the stream is the frames of the PNG. There is no
  path that returns an empty stream in place of an exception.
\<close>

theorem KittyImage_init_decode_failure:
  "(requests_get env url = Inr content
      \<and> (Image_open env content = Inl e
          \<or> (\<exists>img. Image_open env content = Inr img \<and> resize_save_png env img = Inl e))
    \<longrightarrow> KittyImage_init env url = Inl e)
   \<and> (KittyImage_init env url = Inr buf \<longrightarrow>
        (\<exists>content' img png.
           requests_get env url = Inr content' \<and> Image_open env content' = Inr img
           \<and> resize_save_png env img = Inr png
           \<and> buf = concat (write_chunked png [(''a'', PStr ''T''), (''f'', PInt 100)])))"
  by (auto simp add: KittyImage_init_def Let_def split: sum.splits)

theorem KittyImage_init_decode_failure_witness:
  "requests_get broken_image_env ''https://example.org/cat.png'' = Inr [0x6E, 0x6F, 0x70, 0x65]
   \<and> Image_open broken_image_env [0x6E, 0x6F, 0x70, 0x65] = Inl UnidentifiedImageError
   \<and> KittyImage_init broken_image_env ''https://example.org/cat.png''
       = Inl UnidentifiedImageError
   \<and> Image_open truncated_image_env [0x89, 0x50, 0x4E, 0x47] = Inr ()
   \<and> resize_save_png truncated_image_env () = Inl OSError
   \<and> KittyImage_init truncated_image_env ''https://example.org/cat.png'' = Inl OSError
   \<and> KittyImage_init working_image_env ''https://example.org/cat.png''
       = Inr (concat (write_chunked [1, 2, 3] [(''a'', PStr ''T''), (''f'', PInt 100)]))
   \<and> resize_save_png working_image_env () = Inr [1, 2, 3]"
  using KittyImage_init_decode_failure
      [of broken_image_env "''https://example.org/cat.png''" "[0x6E, 0x6F, 0x70, 0x65]"
          UnidentifiedImageError]
    KittyImage_init_decode_failure
      [of truncated_image_env "''https://example.org/cat.png''" "[0x89, 0x50, 0x4E, 0x47]"
          OSError]
    KittyImage_init_decode_failure
      [of working_image_env "''https://example.org/cat.png''" _ _
          "concat (write_chunked [1, 2, 3] [(''a'', PStr ''T''), (''f'', PInt 100)])"]
  by (simp add: broken_image_env_def truncated_image_env_def working_image_env_def
      KittyImage_init_def)

text \<open>
  Claim C3 as stated fails: with bytes that the decoder rejects, the constructor raises
  and does not return the empty stream.
\<close>

theorem KittyImage_init_empty_stream_counterexample:
  "KittyImage_init broken_image_env ''https://example.org/cat.png'' = Inl UnidentifiedImageError
   \<and> KittyImage_init broken_image_env ''https://example.org/cat.png'' \<noteq> Inr []"
  by (simp add: KittyImage_init_def broken_image_env_def)

section \<open>Properties of login and feed\<close>




lemma add_posts_fold:
  "foldl (\<lambda>st pc. add_post pc st) s ps =
     s\<lparr>posts := posts s @ map post_of ps,
       post_ids := post_ids s @ fresh_ids (next_id s) (length ps),
       next_id := next_id s + length ps,
       log := log s @ concat (map add_post_events ps)\<rparr>"
  by (induction ps arbitrary: s) (simp_all add: add_post_def)



lemma action_search_absent: "lemmy_cell s = None \<Longrightarrow> action_search srv s = (s, None)"
  by (simp add: action_search_def)

lemma action_search_failed:
  assumes "lemmy_cell s = Some lem"
    and "run_query srv lem (query s) (searchtype s) (sorttype s) (listingtype s) 20 = None"
  shows "action_search srv s =
           (s\<lparr>searching := False, posts := [], post_ids := [],
              focused := focused (remove_children s),
              log := log s @ [Search lem (query s) (searchtype s) (sorttype s) (listingtype s) 20,
                              RemoveChildren]\<rparr>,
            Some TypeError)"
  using assms by (simp add: action_search_def remove_children_def)

lemma action_search_returned:
  assumes "lemmy_cell s = Some lem"
    and "run_query srv lem (query s) (searchtype s) (sorttype s) (listingtype s) 20 = Some ps"
  shows "action_search srv s =
           (s\<lparr>searching := False, posts := map post_of ps,
              post_ids := fresh_ids (next_id s) (length ps),
              next_id := next_id s + length ps,
              focused := (if ps = [] then focused (remove_children s)
                          else Some (FocusPost (next_id s))),
              log := log s @ [Search lem (query s) (searchtype s) (sorttype s) (listingtype s) 20,
                              RemoveChildren]
                       @ concat (map add_post_events ps)
                       @ (if ps = [] then [] else [FocusEv (FocusPost (next_id s))])\<rparr>,
            None)"
  using assms
  by (cases ps) (simp_all add: action_search_def add_posts_fold remove_children_def)

lemma add_post_events_kinds:
  "ev \<in> set (concat (map add_post_events ps)) \<Longrightarrow>
     \<not> is_Discover ev \<and> \<not> is_LogIn ev \<and> \<not> is_Search ev
     \<and> \<not> is_RemoveChildren ev \<and> \<not> is_FocusEv ev"
  by (auto simp: add_post_events_def split: option.splits)

lemma action_search_frame:
  "\<exists>evs. log (fst (action_search srv s)) = log s @ evs
        \<and> (\<forall>ev \<in> set evs. \<not> is_LogIn ev \<and> \<not> is_Discover ev)
        \<and> label (fst (action_search srv s)) = label s
        \<and> logged (fst (action_search srv s)) = logged s
        \<and> lemmy_cell (fst (action_search srv s)) = lemmy_cell s"
proof (cases "lemmy_cell s")
  case None
  then show ?thesis by (simp add: action_search_absent)
next
  case (Some lem)
  show ?thesis
  proof (cases "run_query srv lem (query s) (searchtype s) (sorttype s) (listingtype s) 20")
    case None
    with Some show ?thesis by (simp add: action_search_failed)
  next
    case (Some ps)
    have "\<forall>ev \<in> set (concat (map add_post_events ps)). \<not> is_LogIn ev \<and> \<not> is_Discover ev"
      using add_post_events_kinds [of _ ps] by blast
    with \<open>lemmy_cell s = Some lem\<close> Some show ?thesis
      by (simp add: action_search_returned ball_Un)
  qed
qed

text \<open>
  Claim C7. Without a session \<open>action_search\<close> returns the state as it was and raises
  nothing. With a session, when the search call returns its posts, nothing is raised, the
  children of the post view are exactly the posts of the reply in the order of the reply,
  and the calls made are, in this order: the one search call, the removal of the previous
  children, and then the mounting of each new post.
\<close>

theorem action_search_installs_results:
  "(lemmy_cell s = None \<longrightarrow> action_search srv s = (s, None))
   \<and> (\<forall>lem ps. lemmy_cell s = Some lem
         \<and> run_query srv lem (query s) (searchtype s) (sorttype s) (listingtype s) 20 = Some ps
       \<longrightarrow> snd (action_search srv s) = None
         \<and> posts (fst (action_search srv s)) = map post_of ps
         \<and> log (fst (action_search srv s)) =
             log s @ [Search lem (query s) (searchtype s) (sorttype s) (listingtype s) 20,
                      RemoveChildren]
               @ concat (map add_post_events ps)
               @ (if ps = [] then [] else [FocusEv (FocusPost (next_id s))]))"
  by (simp add: action_search_absent action_search_returned)

theorem action_search_installs_results_witness:
  "action_search example_server initial_app = (initial_app, None)
   \<and> posts (fst (action_search example_server
        (initial_app\<lparr>lemmy_cell := Some \<lparr>api_base_url = ''https://example.org'',
            nodeinfo = Some [(''software'', ''lemmy'')], authenticated = False\<rparr>,
          posts := [\<lparr>title = ''old'', body = [], thumbnail = None\<rparr>],
          post_ids := [0], next_id := 1\<rparr>)))
     = [\<lparr>title = ''cats'', body = [], thumbnail = Some ''https://example.org/cat.png''\<rparr>,
        \<lparr>title = ''dogs'', body = ''woof'', thumbnail = None\<rparr>]"
  using action_search_installs_results [of initial_app example_server]
    action_search_installs_results [of "initial_app\<lparr>lemmy_cell := Some \<lparr>api_base_url = ''https://example.org'',
            nodeinfo = Some [(''software'', ''lemmy'')], authenticated = False\<rparr>,
          posts := [\<lparr>title = ''old'', body = [], thumbnail = None\<rparr>],
          post_ids := [0], next_id := 1\<rparr>" example_server]
  by (simp add: initial_app_def example_server_def post_of_def)




lemma logged_in_app_eval:
  "logged_in_app =
     initial_app\<lparr>label := ''Success!'', logged := True,
       lemmy_cell := Some \<lparr>api_base_url = ''https://example.org'',
                           nodeinfo = Some [(''software'', ''lemmy'')], authenticated = True\<rparr>,
       posts := [\<lparr>title = ''cats'', body = [], thumbnail = Some ''https://example.org/cat.png''\<rparr>,
                 \<lparr>title = ''dogs'', body = ''woof'', thumbnail = None\<rparr>],
       post_ids := [0, 1], next_id := 2, focused := Some (FocusPost 0),
       log := [Discover ''https://example.org'',
               LogIn ''https://example.org'' ''alice'' ''secret'',
               Search \<lparr>api_base_url = ''https://example.org'',
                        nodeinfo = Some [(''software'', ''lemmy'')], authenticated = True\<rparr>
                 [] ''Posts'' ''Active'' ''All'' 20,
               RemoveChildren,
               Mount \<lparr>title = ''cats'', body = [], thumbnail = None\<rparr>,
               ThumbnailTask ''https://example.org/cat.png'',
               Mount \<lparr>title = ''dogs'', body = ''woof'', thumbnail = None\<rparr>,
               FocusEv (FocusPost 0)]\<rparr>"
  by (simp add: logged_in_app_def log_in_def log_in_inst_def startswith_def truthy_def Let_def
      example_server_def initial_app_def connect_lemmy_view_def watch_lemmy_def action_search_def
      add_post_def post_of_def add_post_events_def remove_children_def reset_focus_def)


text \<open>
  Claim C10, amended. With a session, whatever the four search inputs hold,
  \<open>action_search\<close> makes one search call and that call carries \<^verbatim>\<open>limit=20\<close>. The posts
  installed are exactly the posts of the reply, none when the request failed: the client
  cuts nothing, so there are no more than 20 of them only when the server keeps to the
  limit it was given.
\<close>

theorem action_search_limit:
  "lemmy_cell s = Some lem \<longrightarrow>
     (\<exists>evs. log (fst (action_search srv s)) =
              log s @ Search lem (query s) (searchtype s) (sorttype s) (listingtype s) 20 # evs
          \<and> (\<forall>ev \<in> set evs. \<not> is_Search ev))
     \<and> posts (fst (action_search srv s)) =
         (case run_query srv lem (query s) (searchtype s) (sorttype s) (listingtype s) 20 of
            None \<Rightarrow> []
          | Some ps \<Rightarrow> map post_of ps)"
proof (intro impI)
  assume cell: "lemmy_cell s = Some lem"
  show "(\<exists>evs. log (fst (action_search srv s)) =
              log s @ Search lem (query s) (searchtype s) (sorttype s) (listingtype s) 20 # evs
          \<and> (\<forall>ev \<in> set evs. \<not> is_Search ev))
     \<and> posts (fst (action_search srv s)) =
         (case run_query srv lem (query s) (searchtype s) (sorttype s) (listingtype s) 20 of
            None \<Rightarrow> []
          | Some ps \<Rightarrow> map post_of ps)"
  proof (cases "run_query srv lem (query s) (searchtype s) (sorttype s) (listingtype s) 20")
    case None
    show ?thesis by (simp add: action_search_failed [OF cell None] None)
  next
    case (Some ps)
    have "\<forall>ev \<in> set (concat (map add_post_events ps)). \<not> is_Search ev"
      using add_post_events_kinds [of _ ps] by blast
    then show ?thesis
      by (simp add: action_search_returned [OF cell Some] Some ball_Un)
  qed
qed

theorem action_search_limit_witness:
  "lemmy_cell logged_in_app =
     Some \<lparr>api_base_url = ''https://example.org'',
           nodeinfo = Some [(''software'', ''lemmy'')], authenticated = True\<rparr>
   \<and> hd (drop (length (log logged_in_app))
            (log (fst (action_search example_server (logged_in_app\<lparr>query := ''cats''\<rparr>)))))
       = Search \<lparr>api_base_url = ''https://example.org'',
                 nodeinfo = Some [(''software'', ''lemmy'')], authenticated = True\<rparr>
           ''cats'' ''Posts'' ''Active'' ''All'' 20
   \<and> posts (fst (action_search example_server (logged_in_app\<lparr>query := ''cats''\<rparr>)))
       = [\<lparr>title = ''cats'', body = [], thumbnail = Some ''https://example.org/cat.png''\<rparr>,
          \<lparr>title = ''dogs'', body = ''woof'', thumbnail = None\<rparr>]"
  using action_search_limit
      [of "logged_in_app\<lparr>query := ''cats''\<rparr>"
          "\<lparr>api_base_url = ''https://example.org'',
            nodeinfo = Some [(''software'', ''lemmy'')], authenticated = True\<rparr>"
          example_server]
  by (simp add: logged_in_app_eval example_server_def initial_app_def action_search_def
      add_post_def post_of_def add_post_events_def remove_children_def reset_focus_def Let_def)

text \<open>
  Claim C10 as stated fails: a server that answers with 25 posts gets all 25 installed,
  although the call carried \<^verbatim>\<open>limit=20\<close>.
\<close>

theorem action_search_limit_counterexample:
  "length (posts (fst (action_search flooding_server logged_in_app))) = 25
   \<and> \<not> length (posts (fst (action_search flooding_server logged_in_app))) \<le> 20"
proof -
  have cell: "lemmy_cell logged_in_app =
     Some \<lparr>api_base_url = ''https://example.org'',
           nodeinfo = Some [(''software'', ''lemmy'')], authenticated = True\<rparr>"
    by (simp add: logged_in_app_eval)
  have reply: "run_query flooding_server
      \<lparr>api_base_url = ''https://example.org'',
        nodeinfo = Some [(''software'', ''lemmy'')], authenticated = True\<rparr>
      (query logged_in_app) (searchtype logged_in_app) (sorttype logged_in_app)
      (listingtype logged_in_app) 20
    = Some (replicate 25 \<lparr>pr_name = Some ''cats'', pr_body = None, pr_thumbnail_url = None\<rparr>)"
    by (simp add: flooding_server_def)
  show ?thesis
    by (simp add: action_search_returned [OF cell reply])
qed

lemma action_search_log:
  assumes "lemmy_cell s = Some lem"
  shows "\<exists>evs. log (fst (action_search srv s)) =
              log s @ Search lem (query s) (searchtype s) (sorttype s) (listingtype s) 20 # evs
          \<and> (\<forall>ev \<in> set evs. \<not> is_Search ev \<and> \<not> is_LogIn ev \<and> \<not> is_Discover ev)"
proof (cases "run_query srv lem (query s) (searchtype s) (sorttype s) (listingtype s) 20")
  case None
  show ?thesis by (simp add: action_search_failed [OF assms None])
next
  case (Some ps)
  have "\<forall>ev \<in> set (concat (map add_post_events ps)).
          \<not> is_Search ev \<and> \<not> is_LogIn ev \<and> \<not> is_Discover ev"
    using add_post_events_kinds [of _ ps] by blast
  then show ?thesis
    by (simp add: action_search_returned [OF assms Some] ball_Un)
qed

lemma connect_same_nodeinfo:
  assumes "lemmy_cell s = Some old" "nodeinfo lem = nodeinfo old"
  shows "connect_lemmy_view srv lem s = (s\<lparr>lemmy_cell := Some lem\<rparr>, None)"
  using assms by (simp add: connect_lemmy_view_def watch_lemmy_def)

lemma connect_new_nodeinfo:
  assumes "map_option nodeinfo (lemmy_cell s) \<noteq> Some (nodeinfo lem)"
  shows "connect_lemmy_view srv lem s = action_search srv (s\<lparr>lemmy_cell := Some lem\<rparr>)"
  using assms by (auto simp add: connect_lemmy_view_def watch_lemmy_def split: option.splits)

lemma connect_frame:
  "\<exists>evs. log (fst (connect_lemmy_view srv lem s)) = log s @ evs
        \<and> (\<forall>ev \<in> set evs. \<not> is_LogIn ev \<and> \<not> is_Discover ev)
        \<and> label (fst (connect_lemmy_view srv lem s)) = label s
        \<and> logged (fst (connect_lemmy_view srv lem s)) = logged s
        \<and> lemmy_cell (fst (connect_lemmy_view srv lem s)) = Some lem"
proof (cases "map_option nodeinfo (lemmy_cell s) \<noteq> Some (nodeinfo lem)")
  case True
  show ?thesis
    using action_search_frame [of srv "s\<lparr>lemmy_cell := Some lem\<rparr>"]
    by (simp add: connect_new_nodeinfo [OF True])
next
  case False
  then obtain old where "lemmy_cell s = Some old" "nodeinfo lem = nodeinfo old"
    by (auto split: option.splits)
  then show ?thesis by (simp add: connect_same_nodeinfo)
qed

lemma connect_error:
  "snd (connect_lemmy_view srv lem s) =
     (if map_option nodeinfo (lemmy_cell s) \<noteq> Some (nodeinfo lem)
         \<and> run_query srv lem (query s) (searchtype s) (sorttype s) (listingtype s) 20 = None
      then Some TypeError else None)"
proof (cases "map_option nodeinfo (lemmy_cell s) \<noteq> Some (nodeinfo lem)")
  case True
  have cell: "lemmy_cell (s\<lparr>lemmy_cell := Some lem\<rparr>) = Some lem" by simp
  show ?thesis
  proof (cases "run_query srv lem (query s) (searchtype s) (sorttype s) (listingtype s) 20")
    case None
    then have reply: "run_query srv lem (query (s\<lparr>lemmy_cell := Some lem\<rparr>))
        (searchtype (s\<lparr>lemmy_cell := Some lem\<rparr>)) (sorttype (s\<lparr>lemmy_cell := Some lem\<rparr>))
        (listingtype (s\<lparr>lemmy_cell := Some lem\<rparr>)) 20 = None"
      by simp
    show ?thesis
      using True None
      by (simp add: connect_new_nodeinfo [OF True] action_search_failed [OF cell reply])
  next
    case (Some ps)
    then have reply: "run_query srv lem (query (s\<lparr>lemmy_cell := Some lem\<rparr>))
        (searchtype (s\<lparr>lemmy_cell := Some lem\<rparr>)) (sorttype (s\<lparr>lemmy_cell := Some lem\<rparr>))
        (listingtype (s\<lparr>lemmy_cell := Some lem\<rparr>)) 20 = Some ps"
      by simp
    show ?thesis
      using True Some
      by (simp add: connect_new_nodeinfo [OF True] action_search_returned [OF cell reply])
  qed
next
  case False
  then obtain old where "lemmy_cell s = Some old" "nodeinfo lem = nodeinfo old"
    by (auto split: option.splits)
  then show ?thesis by (simp add: connect_same_nodeinfo)
qed

lemma connect_search_iff:
  "\<exists>evs. log (fst (connect_lemmy_view srv lem s)) = log s @ evs
     \<and> ((\<exists>ev \<in> set evs. is_Search ev)
          \<longleftrightarrow> (map_option nodeinfo (lemmy_cell s) \<noteq> Some (nodeinfo lem)))
     \<and> ((map_option nodeinfo (lemmy_cell s) \<noteq> Some (nodeinfo lem))
          \<longrightarrow> Search lem (query s) (searchtype s) (sorttype s) (listingtype s) 20 \<in> set evs)"
proof (cases "map_option nodeinfo (lemmy_cell s) \<noteq> Some (nodeinfo lem)")
  case True
  from action_search_log [of "s\<lparr>lemmy_cell := Some lem\<rparr>" lem srv]
  obtain evs where "log (fst (action_search srv (s\<lparr>lemmy_cell := Some lem\<rparr>))) =
      log s @ Search lem (query s) (searchtype s) (sorttype s) (listingtype s) 20 # evs"
    by auto
  then show ?thesis using True by (auto simp add: connect_new_nodeinfo [OF True])
next
  case False
  then obtain old where "lemmy_cell s = Some old" "nodeinfo lem = nodeinfo old"
    by (auto split: option.splits)
  then show ?thesis by (simp add: connect_same_nodeinfo)
qed

lemma log_in_success:
  assumes "truthy (fetch_nodeinfo srv (log_in_inst inst))"
    and "user = [] \<or> passwd = [] \<or> check_login srv (log_in_inst inst) user passwd"
  shows "log_in srv inst user passwd s =
           connect_lemmy_view srv
             \<lparr>api_base_url = log_in_inst inst, nodeinfo = fetch_nodeinfo srv (log_in_inst inst),
              authenticated = (user \<noteq> [] \<and> passwd \<noteq> [])\<rparr>
             (s\<lparr>log := log s @ Discover (log_in_inst inst)
                         # (if user \<noteq> [] \<and> passwd \<noteq> []
                            then [LogIn (log_in_inst inst) user passwd] else []),
                label := ''Success!'', logged := True\<rparr>)"
  using assms by (auto simp add: log_in_def Let_def)

text \<open>
  Claim C4, evaluated at the endpoint \<^verbatim>\<open>example.org/\<close>. The scheme is added, but the
  trailing separator stays: the discovery is made against \<^verbatim>\<open>https://example.org/\<close>,
  because the result of \<^verbatim>\<open>inst.strip("/")\<close> is dropped.
\<close>

theorem log_in_keeps_trailing_slash:
  "log_in_inst ''example.org/'' = ''https://example.org/''
   \<and> (\<exists>evs. log (fst (log_in srv ''example.org/'' user passwd s))
              = log s @ Discover ''https://example.org/'' # evs)"
proof -
  have i: "log_in_inst ''example.org/'' = ''https://example.org/''"
    by (simp add: log_in_inst_def startswith_def Let_def)
  have "\<exists>evs. log (fst (log_in srv ''example.org/'' user passwd s))
              = log s @ Discover (log_in_inst ''example.org/'') # evs"
  proof (cases "truthy (fetch_nodeinfo srv (log_in_inst ''example.org/''))
      \<and> (user = [] \<or> passwd = [] \<or> check_login srv (log_in_inst ''example.org/'') user passwd)")
    case True
    then have ok: "truthy (fetch_nodeinfo srv (log_in_inst ''example.org/''))"
      and cred: "user = [] \<or> passwd = [] \<or> check_login srv (log_in_inst ''example.org/'') user passwd"
      by simp_all
    let ?s1 = "s\<lparr>log := log s @ Discover (log_in_inst ''example.org/'')
                         # (if user \<noteq> [] \<and> passwd \<noteq> []
                            then [LogIn (log_in_inst ''example.org/'') user passwd] else []),
                label := ''Success!'', logged := True\<rparr>"
    let ?lem = "\<lparr>api_base_url = log_in_inst ''example.org/'',
                 nodeinfo = fetch_nodeinfo srv (log_in_inst ''example.org/''),
                 authenticated = (user \<noteq> [] \<and> passwd \<noteq> [])\<rparr>"
    from connect_frame [of srv ?lem ?s1]
    obtain evs where "log (fst (connect_lemmy_view srv ?lem ?s1)) = log ?s1 @ evs"
      by blast
    then show ?thesis
      unfolding log_in_success [OF ok cred] by simp
  next
    case False
    then show ?thesis by (auto simp add: log_in_def Let_def)
  qed
  with i show ?thesis by simp
qed

text \<open>
  Claim C5, amended. When the user name or the password is empty, \<open>log_in\<close> makes no call
  of \<^verbatim>\<open>lemmy.log_in\<close>; and when the discovery succeeds, the label reads \<^verbatim>\<open>Success!\<close>, the
  application carries the class \<^verbatim>\<open>logged\<close> and the session published is the handle that
  has not logged in. \<open>log_in\<close> then returns normally, except when publishing the session
  starts the search (there was no session, or one with another nodeinfo) and the search
  request fails: then TypeError is raised, after the session has been published.
\<close>

theorem log_in_anonymous:
  "user = [] \<or> passwd = [] \<longrightarrow>
     (\<exists>evs. log (fst (log_in srv inst user passwd s)) = log s @ evs
           \<and> (\<forall>ev \<in> set evs. \<not> is_LogIn ev))
     \<and> (truthy (fetch_nodeinfo srv (log_in_inst inst)) \<longrightarrow>
          label (fst (log_in srv inst user passwd s)) = ''Success!''
          \<and> logged (fst (log_in srv inst user passwd s))
          \<and> lemmy_cell (fst (log_in srv inst user passwd s)) =
              Some \<lparr>api_base_url = log_in_inst inst,
                    nodeinfo = fetch_nodeinfo srv (log_in_inst inst),
                    authenticated = False\<rparr>
          \<and> snd (log_in srv inst user passwd s) =
              (if map_option nodeinfo (lemmy_cell s) \<noteq> Some (fetch_nodeinfo srv (log_in_inst inst))
                  \<and> run_query srv
                       \<lparr>api_base_url = log_in_inst inst,
                        nodeinfo = fetch_nodeinfo srv (log_in_inst inst),
                        authenticated = False\<rparr>
                       (query s) (searchtype s) (sorttype s) (listingtype s) 20 = None
               then Some TypeError else None))"
proof (intro impI)
  assume anon: "user = [] \<or> passwd = []"
  let ?i = "log_in_inst inst"
  let ?lem = "\<lparr>api_base_url = ?i, nodeinfo = fetch_nodeinfo srv ?i, authenticated = False\<rparr>"
  let ?s1 = "s\<lparr>log := log s @ [Discover ?i], label := ''Success!'', logged := True\<rparr>"
  define outcome where
    "outcome = (if map_option nodeinfo (lemmy_cell s) \<noteq> Some (fetch_nodeinfo srv ?i)
                   \<and> run_query srv ?lem (query s) (searchtype s) (sorttype s) (listingtype s) 20
                       = None
                then Some TypeError else None)"
  have "(\<exists>evs. log (fst (log_in srv inst user passwd s)) = log s @ evs
           \<and> (\<forall>ev \<in> set evs. \<not> is_LogIn ev))
     \<and> (truthy (fetch_nodeinfo srv ?i) \<longrightarrow>
          label (fst (log_in srv inst user passwd s)) = ''Success!''
          \<and> logged (fst (log_in srv inst user passwd s))
          \<and> lemmy_cell (fst (log_in srv inst user passwd s)) = Some ?lem
          \<and> snd (log_in srv inst user passwd s) = outcome)"
  proof (cases "truthy (fetch_nodeinfo srv ?i)")
    case False
    with anon show ?thesis by (auto simp add: log_in_def Let_def)
  next
    case True
    have cred: "user = [] \<or> passwd = [] \<or> check_login srv ?i user passwd"
      using anon by blast
    have run: "log_in srv inst user passwd s = connect_lemmy_view srv ?lem ?s1"
      using log_in_success [OF True cred, of s] anon by auto
    from connect_frame [of srv ?lem ?s1] obtain evs where
      lg: "log (fst (connect_lemmy_view srv ?lem ?s1)) = log ?s1 @ evs" and
      nl: "\<forall>ev \<in> set evs. \<not> is_LogIn ev \<and> \<not> is_Discover ev" and
      lb: "label (fst (connect_lemmy_view srv ?lem ?s1)) = label ?s1" and
      lo: "logged (fst (connect_lemmy_view srv ?lem ?s1)) = logged ?s1" and
      ce: "lemmy_cell (fst (connect_lemmy_view srv ?lem ?s1)) = Some ?lem"
      by blast
    have "log (fst (log_in srv inst user passwd s)) = log s @ (Discover ?i # evs)"
      using lg run by simp
    moreover have "\<forall>ev \<in> set (Discover ?i # evs). \<not> is_LogIn ev"
      using nl by simp
    ultimately have first: "\<exists>evs. log (fst (log_in srv inst user passwd s)) = log s @ evs
           \<and> (\<forall>ev \<in> set evs. \<not> is_LogIn ev)"
      by blast
    have err: "snd (log_in srv inst user passwd s) = outcome"
      unfolding outcome_def run by (simp add: connect_error)
    have lb': "label (fst (log_in srv inst user passwd s)) = ''Success!''"
      using lb run by simp
    have lo': "logged (fst (log_in srv inst user passwd s))"
      using lo run by simp
    have ce': "lemmy_cell (fst (log_in srv inst user passwd s)) = Some ?lem"
      using ce run by simp
    show ?thesis
      using first err lb' lo' ce' by blast
  qed
  then show "(\<exists>evs. log (fst (log_in srv inst user passwd s)) = log s @ evs
           \<and> (\<forall>ev \<in> set evs. \<not> is_LogIn ev))
     \<and> (truthy (fetch_nodeinfo srv ?i) \<longrightarrow>
          label (fst (log_in srv inst user passwd s)) = ''Success!''
          \<and> logged (fst (log_in srv inst user passwd s))
          \<and> lemmy_cell (fst (log_in srv inst user passwd s)) = Some ?lem
          \<and> snd (log_in srv inst user passwd s) =
              (if map_option nodeinfo (lemmy_cell s) \<noteq> Some (fetch_nodeinfo srv ?i)
                  \<and> run_query srv ?lem (query s) (searchtype s) (sorttype s) (listingtype s) 20
                      = None
               then Some TypeError else None))"
    unfolding outcome_def .
qed

theorem log_in_anonymous_witness:
  "truthy (fetch_nodeinfo example_server (log_in_inst ''example.org''))
   \<and> label (fst (log_in example_server ''example.org'' [] [] initial_app)) = ''Success!''
   \<and> lemmy_cell (fst (log_in example_server ''example.org'' [] [] initial_app)) =
        Some \<lparr>api_base_url = ''https://example.org'',
              nodeinfo = Some [(''software'', ''lemmy'')], authenticated = False\<rparr>
   \<and> snd (log_in example_server ''example.org'' [] [] initial_app) = None
   \<and> label (fst (log_in failing_search_server ''example.org'' ''alice'' [] initial_app))
       = ''Success!''
   \<and> snd (log_in failing_search_server ''example.org'' ''alice'' [] initial_app)
       = Some TypeError"
  using log_in_anonymous [of "[]" "[]" example_server "''example.org''" initial_app]
    log_in_anonymous [of "''alice''" "[]" failing_search_server "''example.org''" initial_app]
  by (simp add: example_server_def failing_search_server_def log_in_inst_def startswith_def
      truthy_def Let_def initial_app_def)

text \<open>
  Claim C5 as stated fails: with empty credentials, a discovery that succeeds and a
  search request that fails, \<open>log_in\<close> does not complete: it raises TypeError.
\<close>

theorem log_in_anonymous_counterexample:
  "truthy (fetch_nodeinfo failing_search_server (log_in_inst ''example.org''))
   \<and> snd (log_in failing_search_server ''example.org'' [] [] initial_app) = Some TypeError
   \<and> snd (log_in failing_search_server ''example.org'' [] [] initial_app) \<noteq> None"
  by (simp add: failing_search_server_def example_server_def log_in_def log_in_inst_def
      startswith_def truthy_def Let_def initial_app_def connect_lemmy_view_def watch_lemmy_def
      action_search_def remove_children_def)

text \<open>
  Claim C6, amended. Every successful login, a repeated one included, puts the new handle
  in place of the session held before. The default query runs again exactly when there
  was no session before or the nodeinfo of the previous session differs from that of the
  new one; it is then one search call on the new handle with the current search inputs.
\<close>

theorem log_in_publishes_session:
  "truthy (fetch_nodeinfo srv (log_in_inst inst))
   \<and> (user = [] \<or> passwd = [] \<or> check_login srv (log_in_inst inst) user passwd) \<longrightarrow>
     lemmy_cell (fst (log_in srv inst user passwd s)) =
       Some \<lparr>api_base_url = log_in_inst inst,
             nodeinfo = fetch_nodeinfo srv (log_in_inst inst),
             authenticated = (user \<noteq> [] \<and> passwd \<noteq> [])\<rparr>
     \<and> ((\<exists>ev \<in> set (drop (length (log s)) (log (fst (log_in srv inst user passwd s)))).
            is_Search ev)
          \<longleftrightarrow> (map_option nodeinfo (lemmy_cell s) \<noteq> Some (fetch_nodeinfo srv (log_in_inst inst))))
     \<and> ((map_option nodeinfo (lemmy_cell s) \<noteq> Some (fetch_nodeinfo srv (log_in_inst inst)))
          \<longrightarrow> Search \<lparr>api_base_url = log_in_inst inst,
                      nodeinfo = fetch_nodeinfo srv (log_in_inst inst),
                      authenticated = (user \<noteq> [] \<and> passwd \<noteq> [])\<rparr>
                 (query s) (searchtype s) (sorttype s) (listingtype s) 20
               \<in> set (drop (length (log s)) (log (fst (log_in srv inst user passwd s)))))"
proof (intro impI)
  let ?i = "log_in_inst inst"
  define au where "au \<longleftrightarrow> user \<noteq> [] \<and> passwd \<noteq> []"
  define pre where
    "pre = Discover ?i # (if user \<noteq> [] \<and> passwd \<noteq> [] then [LogIn ?i user passwd] else [])"
  let ?lem = "\<lparr>api_base_url = ?i, nodeinfo = fetch_nodeinfo srv ?i, authenticated = au\<rparr>"
  let ?s1 = "s\<lparr>log := log s @ pre, label := ''Success!'', logged := True\<rparr>"
  let ?cond = "map_option nodeinfo (lemmy_cell s) \<noteq> Some (fetch_nodeinfo srv ?i)"
  assume "truthy (fetch_nodeinfo srv ?i)
     \<and> (user = [] \<or> passwd = [] \<or> check_login srv ?i user passwd)"
  then have ok: "truthy (fetch_nodeinfo srv ?i)"
    and cred: "user = [] \<or> passwd = [] \<or> check_login srv ?i user passwd"
    by simp_all
  have run: "log_in srv inst user passwd s = connect_lemmy_view srv ?lem ?s1"
    unfolding au_def pre_def by (rule log_in_success [OF ok cred])
  have cell: "lemmy_cell (fst (connect_lemmy_view srv ?lem ?s1)) = Some ?lem"
    using connect_frame [of srv ?lem ?s1] by blast
  have "\<exists>evs. log (fst (connect_lemmy_view srv ?lem ?s1)) = log ?s1 @ evs
     \<and> ((\<exists>ev \<in> set evs. is_Search ev) \<longleftrightarrow> ?cond)
     \<and> (?cond \<longrightarrow> Search ?lem (query s) (searchtype s) (sorttype s) (listingtype s) 20
            \<in> set evs)"
    using connect_search_iff [of srv ?lem ?s1] by simp
  then obtain evs where
    lg: "log (fst (connect_lemmy_view srv ?lem ?s1)) = log ?s1 @ evs" and
    iff: "(\<exists>ev \<in> set evs. is_Search ev) \<longleftrightarrow> ?cond" and
    mem: "?cond \<longrightarrow> Search ?lem (query s) (searchtype s) (sorttype s) (listingtype s) 20 \<in> set evs"
    by blast
  have new: "drop (length (log s)) (log (fst (log_in srv inst user passwd s))) = pre @ evs"
    using lg run by simp
  have pre: "\<forall>ev \<in> set pre. \<not> is_Search ev" by (simp add: pre_def)
  have a: "(\<exists>ev \<in> set (pre @ evs). is_Search ev) \<longleftrightarrow> ?cond"
    using iff pre by auto
  have b: "?cond \<longrightarrow>
      Search ?lem (query s) (searchtype s) (sorttype s) (listingtype s) 20 \<in> set (pre @ evs)"
    using mem by simp
  have c: "lemmy_cell (fst (log_in srv inst user passwd s)) = Some ?lem"
    using cell run by simp
  show "lemmy_cell (fst (log_in srv inst user passwd s)) =
       Some \<lparr>api_base_url = ?i, nodeinfo = fetch_nodeinfo srv ?i,
             authenticated = (user \<noteq> [] \<and> passwd \<noteq> [])\<rparr>
     \<and> ((\<exists>ev \<in> set (drop (length (log s)) (log (fst (log_in srv inst user passwd s)))).
            is_Search ev) \<longleftrightarrow> ?cond)
     \<and> (?cond \<longrightarrow> Search \<lparr>api_base_url = ?i, nodeinfo = fetch_nodeinfo srv ?i,
                      authenticated = (user \<noteq> [] \<and> passwd \<noteq> [])\<rparr>
                 (query s) (searchtype s) (sorttype s) (listingtype s) 20
               \<in> set (drop (length (log s)) (log (fst (log_in srv inst user passwd s)))))"
    unfolding new using a b c unfolding au_def by blast
qed

theorem log_in_publishes_session_witness:
  "truthy (fetch_nodeinfo example_server (log_in_inst ''example.org''))
   \<and> check_login example_server (log_in_inst ''example.org'') ''alice'' ''secret''
   \<and> lemmy_cell (fst (log_in example_server ''example.org'' ''alice'' ''secret'' initial_app)) =
        Some \<lparr>api_base_url = ''https://example.org'',
              nodeinfo = Some [(''software'', ''lemmy'')], authenticated = True\<rparr>
   \<and> Search \<lparr>api_base_url = ''https://example.org'',
              nodeinfo = Some [(''software'', ''lemmy'')], authenticated = True\<rparr>
        [] ''Posts'' ''Active'' ''All'' 20
       \<in> set (log (fst (log_in example_server ''example.org'' ''alice'' ''secret'' initial_app)))"
  using log_in_publishes_session [of example_server "''example.org''" "''alice''" "''secret''" initial_app]
  by (simp add: example_server_def log_in_inst_def startswith_def truthy_def Let_def initial_app_def)

text \<open>
  Claim C6 as stated fails: a second successful login at the same server replaces the
  session and makes the discovery and the authentication calls, but no search call.
\<close>

theorem relogin_search_counterexample:
  "lemmy_cell logged_in_app =
     Some \<lparr>api_base_url = ''https://example.org'',
           nodeinfo = Some [(''software'', ''lemmy'')], authenticated = True\<rparr>
   \<and> label (fst (log_in example_server ''example.org'' ''alice'' ''secret'' logged_in_app))
       = ''Success!''
   \<and> log (fst (log_in example_server ''example.org'' ''alice'' ''secret'' logged_in_app))
       = log logged_in_app
           @ [Discover ''https://example.org'', LogIn ''https://example.org'' ''alice'' ''secret'']"
  by (simp add: logged_in_app_eval log_in_def log_in_inst_def startswith_def truthy_def Let_def
      example_server_def initial_app_def connect_lemmy_view_def watch_lemmy_def)

end
